theory Spec2Isabelle
  imports Main
begin

section \<open>The loop-database builder of ISAMBARD (create_loop_database.py)\<close>

text \<open>
  The module reads a list of PDB file paths, extracts loop rows from each file with
  \<^verbatim>\<open>gather_loops_from_pdb\<close>, adds the rows to an SQLAlchemy session in chunks of 100
  files and prints a summary. The extractor and the storage engine are external; the
  extractor is a parameter of the model, and the session, the table and the console are
  fields of an explicit state. A call that raises, or that never returns, is a value of
  the model too.
\<close>

subsection \<open>Data\<close>

type_synonym path = string

text \<open>
  What becomes of an exception object when \<^verbatim>\<open>multiprocessing.Pool\<close> sends a worker's
  result to the parent, pickled in the worker and unpickled in the parent:
  \<^item> \<open>Intact\<close>: the parent receives an equal exception;
  \<^item> \<open>Altered s\<close>: the class rebuilds the exception from its \<^verbatim>\<open>args\<close>, and the copy
    reads \<open>s\<close> under \<^verbatim>\<open>str\<close>;
  \<^item> \<open>Pickle_fails\<close>: pickling raises in the worker, and \<^verbatim>\<open>Pool.map\<close> raises
    \<^verbatim>\<open>MaybeEncodingError\<close> in the parent;
  \<^item> \<open>Unpickle_fails\<close>: unpickling raises in the parent's result thread, and
    \<^verbatim>\<open>Pool.map\<close> never returns.
\<close>

datatype crossing = Intact | Altered string | Pickle_fails | Unpickle_fails

text \<open>
  A raised object: whether it is an instance of \<^verbatim>\<open>Exception\<close> (what
  \<^verbatim>\<open>except Exception\<close> catches; \<^verbatim>\<open>SystemExit\<close>, \<^verbatim>\<open>KeyboardInterrupt\<close> and
  \<^verbatim>\<open>GeneratorExit\<close> are not), what \<^verbatim>\<open>str\<close> returns on it, and how it crosses the pool.
\<close>

datatype exn = Exn (is_Exception: bool) (str: string) (crossing: crossing)

text \<open>
  One element of the list returned by \<^verbatim>\<open>fault_tolerant_gather\<close>, annotated
  \<^verbatim>\<open>List[Union[dict, Tuple[str, Exception]]]\<close>: a loop (a dict of column values, of
  type \<open>'l\<close>) or the pair of a path and the exception raised on it. The loop body tells
  them apart with \<^verbatim>\<open>isinstance(loop, tuple)\<close>.
\<close>

datatype 'l item = Loop 'l | Failure path exn

text \<open>
  \<^verbatim>\<open>gather_loops_from_pdb\<close> is imported from another module: it returns a list of loops
  (\<open>Inr\<close>) or raises (\<open>Inl\<close>).
\<close>

type_synonym 'l extractor = "path \<Rightarrow> exn + 'l list"

record stats =
  total_pdbs :: int
  succeeded :: int
  failed :: int
  total_loops :: int

text \<open>Calls made to the collaborators, in the order the code makes them.\<close>

datatype call = Gathered "path list" | Committed

text \<open>
  The state of a run: the dict \<^verbatim>\<open>db_stats\<close>, the rows added to the session and not yet
  committed, the rows written by each commit of this run (oldest first), the strings
  given to \<^verbatim>\<open>print\<close>, and the calls made.
\<close>

record 'l world =
  db_stats :: stats
  session :: "'l list"
  database :: "'l list list"
  console :: "string list"
  calls :: "call list"

text \<open>
  The ways a call of \<^verbatim>\<open>process_pdb_files\<close> ends without returning: an exception that
  \<^verbatim>\<open>fault_tolerant_gather\<close> did not catch propagates, \<^verbatim>\<open>Pool.map\<close> raises
  \<^verbatim>\<open>MaybeEncodingError\<close>, or \<^verbatim>\<open>Pool.map\<close> blocks for ever.
\<close>

datatype abort = Propagates exn | MaybeEncodingError | Never_returns

subsection \<open>fault_tolerant_gather\<close>

text \<open>
  The handler is \<^verbatim>\<open>except Exception\<close>: a raised object that is not an instance of
  \<^verbatim>\<open>Exception\<close> goes on to the caller (\<open>Inl\<close>).
\<close>

definition fault_tolerant_gather :: "'l extractor \<Rightarrow> path \<Rightarrow> exn + 'l item list" where
  "fault_tolerant_gather gather_loops_from_pdb path =
     (case gather_loops_from_pdb path of
        Inr loops \<Rightarrow> Inr (map Loop loops)
      | Inl e \<Rightarrow> if is_Exception e then Inr [Failure path e] else Inl e)"

subsection \<open>Chunking\<close>

text \<open>\<^verbatim>\<open>xs[i:j]\<close> for \<open>0 \<le> i \<le> j\<close>: the slice stops at the end of the list.\<close>

definition slice :: "'a list \<Rightarrow> nat \<Rightarrow> nat \<Rightarrow> 'a list" where
  "slice xs i j = take (j - i) (drop i xs)"

text \<open>\<^verbatim>\<open>range(0, stop, step)\<close> for a positive step.\<close>

definition range_step :: "nat \<Rightarrow> nat \<Rightarrow> nat list" where
  "range_step stop step = map (\<lambda>k. k * step) [0..<(stop + step - 1) div step]"

text \<open>
  \<^verbatim>\<open>[data_file_paths[i:i + 100] for i in range(0, len(data_file_paths), 100)]\<close>
\<close>

definition data_chunks :: "'a list \<Rightarrow> 'a list list" where
  "data_chunks data_file_paths =
     map (\<lambda>i. slice data_file_paths i (i + 100)) (range_step (length data_file_paths) 100)"

subsection \<open>Console messages\<close>

text \<open>Decimal digits of a Python int, as \<^verbatim>\<open>str.format\<close> writes them.\<close>

fun show_nat :: "nat \<Rightarrow> string" where
  "show_nat n =
     (if n < 10 then [''0123456789'' ! n]
      else show_nat (n div 10) @ [''0123456789'' ! (n mod 10)])"

declare show_nat.simps [simp del]

definition show_int :: "int \<Rightarrow> string" where
  "show_int i = (if i < 0 then ''-'' @ show_nat (nat (- i)) else show_nat (nat i))"

text \<open>
  The two \<^verbatim>\<open>print\<close> calls of the failure branch:
  \<^verbatim>\<open>f'Failed to process {path}:\n {str(ex)}\n'\<close> when verbose, and
  \<^verbatim>\<open>f'Failed to process {path}'\<close> otherwise.
\<close>

definition failure_notice :: "bool \<Rightarrow> path \<Rightarrow> exn \<Rightarrow> string" where
  "failure_notice verbose path ex =
     (if verbose then ''Failed to process '' @ path @ '':\<newline> '' @ str ex @ ''\<newline>''
      else ''Failed to process '' @ path)"

text \<open>The summary printed after the last chunk.\<close>

definition summary :: "stats \<Rightarrow> string" where
  "summary st =
     ''Finished processing '' @ show_int (total_pdbs st) @ '' PDB files:\<newline>''
     @ show_int (succeeded st) @ '' succeeded, '' @ show_int (failed st) @ '' failed, ''
     @ show_int (total_loops st) @ '' added to database.''"

subsection \<open>process_pdb_files\<close>

text \<open>
  The body of \<^verbatim>\<open>for loop in itertools.chain(*loop_lists)\<close>: \<^verbatim>\<open>total_loops\<close> is
  incremented first, for every element; a tuple then counts as failed and is reported,
  and any other element is added to the session and counts as succeeded.
\<close>

definition loop_body :: "bool \<Rightarrow> 'l world \<Rightarrow> 'l item \<Rightarrow> 'l world" where
  "loop_body verbose w loop =
     (let w1 = w\<lparr>db_stats := (db_stats w)\<lparr>total_loops := total_loops (db_stats w) + 1\<rparr>\<rparr>
      in case loop of
           Failure path ex \<Rightarrow>
             w1\<lparr>db_stats := (db_stats w1)\<lparr>failed := failed (db_stats w1) + 1\<rparr>,
                console := console w1 @ [failure_notice verbose path ex]\<rparr>
         | Loop loop_entry \<Rightarrow>
             w1\<lparr>session := session w1 @ [loop_entry],
                db_stats := (db_stats w1)\<lparr>succeeded := succeeded (db_stats w1) + 1\<rparr>\<rparr>)"

text \<open>
  The results of the calls of a mapped function, in order, up to the first one that
  raises.
\<close>

fun collect :: "('e + 'b) list \<Rightarrow> 'e + 'b list" where
  "collect [] = Inr []"
| "collect (Inl e # rs) = Inl e"
| "collect (Inr r # rs) = (case collect rs of Inl e \<Rightarrow> Inl e | Inr xs \<Rightarrow> Inr (r # xs))"

text \<open>
  \<^verbatim>\<open>map(fault_tolerant_gather, paths)\<close> as \<^verbatim>\<open>itertools.chain(*loop_lists)\<close> consumes
  it: the calls are made in order when the iterator is unpacked, and the first exception
  that \<^verbatim>\<open>fault_tolerant_gather\<close> lets through propagates.
\<close>

definition builtin_map :: "(path \<Rightarrow> exn + 'b) \<Rightarrow> path list \<Rightarrow> abort + 'b list" where
  "builtin_map f paths =
     (case collect (map f paths) of Inl e \<Rightarrow> Inl (Propagates e) | Inr results \<Rightarrow> Inr results)"

text \<open>The element the parent holds after a worker's result has crossed the pool.\<close>

definition across :: "exn \<Rightarrow> exn" where
  "across e = (case crossing e of Altered s \<Rightarrow> Exn (is_Exception e) s Intact | _ \<Rightarrow> e)"

fun received :: "'l item \<Rightarrow> 'l item" where
  "received (Loop loop) = Loop loop"
| "received (Failure path ex) = Failure path (across ex)"

fun pickles :: "'l item \<Rightarrow> bool" where
  "pickles (Loop loop) = True"
| "pickles (Failure path ex) = (crossing ex \<noteq> Pickle_fails)"

fun unpickles :: "'l item \<Rightarrow> bool" where
  "unpickles (Loop loop) = True"
| "unpickles (Failure path ex) = (crossing ex \<noteq> Unpickle_fails)"

text \<open>
  \<^verbatim>\<open>multiprocessing.Pool(processes).map(f, paths)\<close> is the standard library's. Each call
  runs in a worker process and its result is pickled, sent to the parent and unpickled
  there; \<^verbatim>\<open>map\<close> returns once every call is answered, with the results in the order of
  \<^verbatim>\<open>paths\<close> whichever worker ran which call.
  \<^item> A call that raises what the worker's own \<^verbatim>\<open>except Exception\<close> does not catch ends
    the worker process; its task is never answered, and \<^verbatim>\<open>map\<close> never returns.
  \<^item> A result that does not unpickle ends the parent's result thread; no further task is
    answered, and \<^verbatim>\<open>map\<close> never returns.
  \<^item> Otherwise a result that does not pickle makes \<^verbatim>\<open>map\<close> raise
    \<^verbatim>\<open>MaybeEncodingError\<close>.
  Loops are dicts of column values and cross the pool unchanged. The number of workers
  does not change what \<^verbatim>\<open>map\<close> returns.
\<close>

definition pool_map ::
  "int \<Rightarrow> (path \<Rightarrow> exn + 'l item list) \<Rightarrow> path list \<Rightarrow> abort + 'l item list list" where
  "pool_map processes f paths =
     (case collect (map f paths) of
        Inl e \<Rightarrow> Inl Never_returns
      | Inr results \<Rightarrow>
          if list_ex (list_ex (\<lambda>i. \<not> unpickles i)) results then Inl Never_returns
          else if list_ex (list_ex (\<lambda>i. \<not> pickles i)) results then Inl MaybeEncodingError
          else Inr (map (map received) results))"

text \<open>\<^verbatim>\<open>session.commit()\<close>: the rows added since the last commit are written.\<close>

definition commit :: "'l world \<Rightarrow> 'l world" where
  "commit w = w\<lparr>database := database w @ [session w], session := [],
                calls := calls w @ [Committed]\<rparr>"

text \<open>One iteration of \<^verbatim>\<open>for paths in data_chunks\<close>.\<close>

definition process_chunk ::
  "'l extractor \<Rightarrow> int \<Rightarrow> bool \<Rightarrow> 'l world \<Rightarrow> path list \<Rightarrow> abort + 'l world" where
  "process_chunk gather_loops_from_pdb processes verbose w paths =
     (case (if processes > 1
            then pool_map processes (fault_tolerant_gather gather_loops_from_pdb) paths
            else builtin_map (fault_tolerant_gather gather_loops_from_pdb) paths) of
        Inl a \<Rightarrow> Inl a
      | Inr loop_lists \<Rightarrow>
          (let w1 = w\<lparr>calls := calls w @ [Gathered paths]\<rparr>;
               w2 = w1\<lparr>db_stats := (db_stats w1)\<lparr>total_pdbs := total_pdbs (db_stats w1) + int (length paths)\<rparr>\<rparr>;
               w3 = foldl (loop_body verbose) w2 (concat loop_lists)
           in Inr (commit w3)))"

text \<open>The loop \<^verbatim>\<open>for paths in data_chunks\<close>: a chunk that does not return ends it.\<close>

fun for_chunks ::
  "'l extractor \<Rightarrow> int \<Rightarrow> bool \<Rightarrow> 'l world \<Rightarrow> path list list \<Rightarrow> abort + 'l world" where
  "for_chunks gather_loops_from_pdb processes verbose w [] = Inr w"
| "for_chunks gather_loops_from_pdb processes verbose w (paths # chunks) =
     (case process_chunk gather_loops_from_pdb processes verbose w paths of
        Inl a \<Rightarrow> Inl a
      | Inr w' \<Rightarrow> for_chunks gather_loops_from_pdb processes verbose w' chunks)"

text \<open>The state after \<^verbatim>\<open>db_stats\<close> is initialised, on a new session.\<close>

definition initial :: "'l world" where
  "initial = \<lparr>db_stats = \<lparr>total_pdbs = 0, succeeded = 0, failed = 0, total_loops = 0\<rparr>,
              session = [], database = [], console = [], calls = []\<rparr>"

text \<open>
  \<^verbatim>\<open>process_pdb_files\<close> returns \<^verbatim>\<open>None\<close>; the model returns the state the run ends
  in, after the summary is printed (\<open>Inr\<close>), or the way it ends without returning
  (\<open>Inl\<close>). \<^verbatim>\<open>output_path\<close> only names the SQLite file that \<^verbatim>\<open>create_engine\<close> opens,
  and \<^verbatim>\<open>database\<close> holds what this run commits to it.
\<close>

definition process_pdb_files ::
  "'l extractor \<Rightarrow> path list \<Rightarrow> string \<Rightarrow> int \<Rightarrow> bool \<Rightarrow> abort + 'l world" where
  "process_pdb_files gather_loops_from_pdb data_file_paths output_path processes verbose =
     (case for_chunks gather_loops_from_pdb processes verbose initial
             (data_chunks data_file_paths) of
        Inl a \<Rightarrow> Inl a
      | Inr w \<Rightarrow> Inr (w\<lparr>console := console w @ [summary (db_stats w)]\<rparr>))"

subsection \<open>What a run computes, as functions of the extractor\<close>

text \<open>
  The rows and the notices among the elements the loop body sees; the exception object
  the loop body holds for a raised one (the unpickled copy when a pool is used); the
  elements one path and a list of paths give; the runs in which every raised exception is
  caught and, with a pool, crosses it; the state such a run ends in; the chunks handed to
  the workers and the failing paths.
\<close>

fun rows_of :: "'l item list \<Rightarrow> 'l list" where
  "rows_of [] = []"
| "rows_of (Loop l # items) = l # rows_of items"
| "rows_of (Failure p e # items) = rows_of items"

fun notices_of :: "bool \<Rightarrow> 'l item list \<Rightarrow> string list" where
  "notices_of verbose [] = []"
| "notices_of verbose (Loop l # items) = notices_of verbose items"
| "notices_of verbose (Failure p e # items) = failure_notice verbose p e # notices_of verbose items"

definition seen :: "int \<Rightarrow> exn \<Rightarrow> exn" where
  "seen processes e = (if processes > 1 then across e else e)"

definition tagged :: "int \<Rightarrow> 'l extractor \<Rightarrow> path \<Rightarrow> 'l item list" where
  "tagged processes ex p =
     (case ex p of Inr loops \<Rightarrow> map Loop loops | Inl e \<Rightarrow> [Failure p (seen processes e)])"

definition outcomes :: "int \<Rightarrow> 'l extractor \<Rightarrow> path list \<Rightarrow> 'l item list" where
  "outcomes processes ex paths = concat (map (tagged processes ex) paths)"

definition survives :: "int \<Rightarrow> exn \<Rightarrow> bool" where
  "survives processes e =
     (is_Exception e \<and>
      (if processes > 1 then crossing e \<noteq> Pickle_fails \<and> crossing e \<noteq> Unpickle_fails
       else True))"

definition clean :: "int \<Rightarrow> 'l extractor \<Rightarrow> path list \<Rightarrow> bool" where
  "clean processes ex paths =
     list_all (\<lambda>p. case ex p of Inr loops \<Rightarrow> True | Inl e \<Rightarrow> survives processes e) paths"

definition after_chunks ::
  "int \<Rightarrow> 'l extractor \<Rightarrow> bool \<Rightarrow> 'l world \<Rightarrow> path list list \<Rightarrow> 'l world" where
  "after_chunks n ex v w chunks =
     \<lparr>db_stats = \<lparr>total_pdbs = total_pdbs (db_stats w) + int (length (concat chunks)),
          succeeded = succeeded (db_stats w) + int (length (rows_of (outcomes n ex (concat chunks)))),
          failed = failed (db_stats w) + int (length (notices_of v (outcomes n ex (concat chunks)))),
          total_loops = total_loops (db_stats w) + int (length (outcomes n ex (concat chunks)))\<rparr>,
       session = [],
       database = database w @ map (\<lambda>c. rows_of (outcomes n ex c)) chunks,
       console = console w @ notices_of v (outcomes n ex (concat chunks)),
       calls = calls w @ concat (map (\<lambda>c. [Gathered c, Committed]) chunks)\<rparr>"

fun gathered :: "call list \<Rightarrow> path list list" where
  "gathered [] = []"
| "gathered (Gathered paths # cs) = paths # gathered cs"
| "gathered (Committed # cs) = gathered cs"

fun failures :: "'l extractor \<Rightarrow> path list \<Rightarrow> (path \<times> exn) list" where
  "failures ex [] = []"
| "failures ex (p # ps) =
     (case ex p of Inl e \<Rightarrow> (p, e) # failures ex ps | Inr loops \<Rightarrow> failures ex ps)"

definition final_stats :: "int \<Rightarrow> 'l extractor \<Rightarrow> bool \<Rightarrow> path list \<Rightarrow> stats" where
  "final_stats n ex v paths =
     \<lparr>total_pdbs = int (length paths),
      succeeded = int (length (rows_of (outcomes n ex paths))),
      failed = int (length (notices_of v (outcomes n ex paths))),
      total_loops = int (length (outcomes n ex paths))\<rparr>"

definition final_world :: "int \<Rightarrow> 'l extractor \<Rightarrow> bool \<Rightarrow> path list \<Rightarrow> 'l world" where
  "final_world n ex v paths =
     \<lparr>db_stats = final_stats n ex v paths,
      session = [],
      database = map (\<lambda>c. rows_of (outcomes n ex c)) (data_chunks paths),
      console = notices_of v (outcomes n ex paths) @ [summary (final_stats n ex v paths)],
      calls = concat (map (\<lambda>c. [Gathered c, Committed]) (data_chunks paths))\<rparr>"

section \<open>Properties\<close>

subsection \<open>Chunking, the loops and the ways a run ends\<close>

lemma clean_Nil: "clean n ex []"
  by (simp add: clean_def)

lemma clean_Cons:
  "clean n ex (p # ps) \<longleftrightarrow> (case ex p of Inr loops \<Rightarrow> True | Inl e \<Rightarrow> survives n e) \<and> clean n ex ps"
  by (simp add: clean_def)

lemma clean_append: "clean n ex (xs @ ys) \<longleftrightarrow> clean n ex xs \<and> clean n ex ys"
  by (simp add: clean_def)

lemma collect_caught:
  "list_all (\<lambda>p. case ex p of Inr loops \<Rightarrow> True | Inl e \<Rightarrow> is_Exception e) ps \<Longrightarrow>
   collect (map (fault_tolerant_gather ex) ps) = Inr (map (tagged 0 ex) ps)"
proof (induction ps)
  case Nil
  show ?case by simp
next
  case (Cons p ps)
  then show ?case
    by (cases "ex p") (simp_all add: fault_tolerant_gather_def tagged_def seen_def)
qed

lemma collect_uncaught:
  "\<not> list_all (\<lambda>p. case ex p of Inr loops \<Rightarrow> True | Inl e \<Rightarrow> is_Exception e) ps \<Longrightarrow>
   \<exists>e. collect (map (fault_tolerant_gather ex) ps) = Inl e \<and> \<not> is_Exception e"
proof (induction ps)
  case Nil
  then show ?case by simp
next
  case (Cons p ps)
  show ?case
  proof (cases "ex p")
    case (Inl e)
    show ?thesis
    proof (cases "is_Exception e")
      case True
      with Inl Cons.prems
      have "\<not> list_all (\<lambda>p. case ex p of Inr loops \<Rightarrow> True | Inl e \<Rightarrow> is_Exception e) ps"
        by simp
      from Cons.IH [OF this] obtain e' where
        "collect (map (fault_tolerant_gather ex) ps) = Inl e'" "\<not> is_Exception e'"
        by blast
      with Inl True show ?thesis
        by (simp add: fault_tolerant_gather_def [of ex p])
    next
      case False
      with Inl show ?thesis
        by (simp add: fault_tolerant_gather_def [of ex p])
    qed
  next
    case (Inr loops)
    with Cons.prems
    have "\<not> list_all (\<lambda>p. case ex p of Inr loops \<Rightarrow> True | Inl e \<Rightarrow> is_Exception e) ps"
      by simp
    from Cons.IH [OF this] obtain e' where
      "collect (map (fault_tolerant_gather ex) ps) = Inl e'" "\<not> is_Exception e'"
      by blast
    with Inr show ?thesis
      by (simp add: fault_tolerant_gather_def [of ex p])
  qed
qed

lemma clean_caught:
  "clean n ex ps \<Longrightarrow>
   list_all (\<lambda>p. case ex p of Inr loops \<Rightarrow> True | Inl e \<Rightarrow> is_Exception e) ps"
  by (induction ps) (simp_all add: clean_Nil clean_Cons survives_def split: sum.splits)

lemma builtin_map_clean:
  "\<not> 1 < n \<Longrightarrow> clean n ex ps \<Longrightarrow>
   builtin_map (fault_tolerant_gather ex) ps = Inr (map (tagged n ex) ps)"
proof -
  assume n: "\<not> 1 < n" and c: "clean n ex ps"
  have "tagged n ex = tagged 0 ex"
    using n by (intro ext) (simp add: tagged_def seen_def split: sum.split)
  then show ?thesis
    using collect_caught [OF clean_caught [OF c]] by (simp add: builtin_map_def)
qed

lemma builtin_map_unclean:
  "\<not> 1 < n \<Longrightarrow> \<not> clean n ex ps \<Longrightarrow> \<exists>a. builtin_map (fault_tolerant_gather ex) ps = Inl a"
proof -
  assume n: "\<not> 1 < n" and c: "\<not> clean n ex ps"
  have "survives n = is_Exception"
    using n by (intro ext) (simp add: survives_def)
  then have "clean n ex ps = list_all (\<lambda>p. case ex p of Inr loops \<Rightarrow> True | Inl e \<Rightarrow> is_Exception e) ps"
    by (simp add: clean_def cong: sum.case_cong)
  with c collect_uncaught [of ex ps] show ?thesis
    by (auto simp add: builtin_map_def)
qed

lemma received_tagged:
  "1 < n \<Longrightarrow> map received (tagged 0 ex p) = tagged n ex p"
  by (cases "ex p") (simp_all add: tagged_def seen_def comp_def)

lemma tagged_crossing:
  "list_ex (\<lambda>i. \<not> unpickles i) (tagged 0 ex p) \<longleftrightarrow>
     (case ex p of Inr loops \<Rightarrow> False | Inl e \<Rightarrow> crossing e = Unpickle_fails)"
  "list_ex (\<lambda>i. \<not> pickles i) (tagged 0 ex p) \<longleftrightarrow>
     (case ex p of Inr loops \<Rightarrow> False | Inl e \<Rightarrow> crossing e = Pickle_fails)"
  by (cases "ex p"; simp add: tagged_def seen_def list_ex_iff)+

lemma pool_map_clean:
  "1 < n \<Longrightarrow> clean n ex ps \<Longrightarrow>
   pool_map n (fault_tolerant_gather ex) ps = Inr (map (tagged n ex) ps)"
proof -
  assume n: "1 < n" and c: "clean n ex ps"
  have u: "\<not> list_ex (list_ex (\<lambda>i. \<not> unpickles i)) (map (tagged 0 ex) ps)"
    using c n
    by (induction ps) (simp_all add: clean_Cons tagged_crossing survives_def split: sum.splits)
  have p: "\<not> list_ex (list_ex (\<lambda>i. \<not> pickles i)) (map (tagged 0 ex) ps)"
    using c n
    by (induction ps) (simp_all add: clean_Cons tagged_crossing survives_def split: sum.splits)
  show ?thesis
    using collect_caught [OF clean_caught [OF c]] u p n
    by (simp add: pool_map_def received_tagged)
qed

lemma pool_map_unclean:
  "1 < n \<Longrightarrow> \<not> clean n ex ps \<Longrightarrow> \<exists>a. pool_map n (fault_tolerant_gather ex) ps = Inl a"
proof (cases "list_all (\<lambda>p. case ex p of Inr loops \<Rightarrow> True | Inl e \<Rightarrow> is_Exception e) ps")
  case False
  from collect_uncaught [OF this] show ?thesis
    by (auto simp add: pool_map_def)
next
  case True
  assume n: "1 < n" and c: "\<not> clean n ex ps"
  have "list_ex (list_ex (\<lambda>i. \<not> unpickles i)) (map (tagged 0 ex) ps)
        \<or> list_ex (list_ex (\<lambda>i. \<not> pickles i)) (map (tagged 0 ex) ps)"
    using c n True
    by (induction ps)
      (auto simp add: clean_Nil clean_Cons tagged_crossing survives_def split: sum.splits)
  then show ?thesis
    using collect_caught [OF True] by (auto simp add: pool_map_def)
qed

lemma rows_of_append: "rows_of (xs @ ys) = rows_of xs @ rows_of ys"
  by (induction xs rule: rows_of.induct) simp_all

lemma notices_of_append: "notices_of v (xs @ ys) = notices_of v xs @ notices_of v ys"
  by (induction v xs rule: notices_of.induct) simp_all

lemma length_rows_notices: "length (rows_of xs) + length (notices_of v xs) = length xs"
  by (induction xs rule: rows_of.induct) simp_all

lemma foldl_loop_body:
  "foldl (loop_body v) w items =
     w\<lparr>db_stats := (db_stats w)\<lparr>
          succeeded := succeeded (db_stats w) + int (length (rows_of items)),
          failed := failed (db_stats w) + int (length (notices_of v items)),
          total_loops := total_loops (db_stats w) + int (length items)\<rparr>,
       session := session w @ rows_of items,
       console := console w @ notices_of v items\<rparr>"
proof (induction items arbitrary: w)
  case Nil
  show ?case by simp
next
  case (Cons a items)
  show ?case
    by (cases a) (simp_all add: Cons.IH, simp_all add: loop_body_def)
qed

lemma data_chunks_eq:
  "data_chunks xs = map (\<lambda>k. take 100 (drop (k * 100) xs)) [0..<(length xs + 99) div 100]"
  by (simp add: data_chunks_def range_step_def slice_def comp_def add.commute)

lemma concat_take_drop:
  "concat (map (\<lambda>k. take n (drop (k * n) xs)) [0..<m]) = take (m * n) xs"
proof (induction m)
  case 0
  show ?case by simp
next
  case (Suc m)
  have "take (m * n) xs @ take n (drop (m * n) xs) = take (m * n + n) xs"
    by (simp add: take_add)
  then show ?case
    by (simp add: Suc.IH add.commute)
qed

lemma concat_data_chunks: "concat (data_chunks xs) = xs"
proof -
  have "length xs \<le> (length xs + 99) div 100 * 100"
    by arith
  then show ?thesis
    by (simp add: data_chunks_eq concat_take_drop)
qed

lemma length_data_chunks: "length (data_chunks xs) = (length xs + 99) div 100"
  by (simp add: data_chunks_eq)

lemma nth_data_chunks:
  "k < length (data_chunks xs) \<Longrightarrow> data_chunks xs ! k = take 100 (drop (k * 100) xs)"
  by (simp add: data_chunks_eq)

lemma length_nth_data_chunks:
  "k < length (data_chunks xs) \<Longrightarrow>
   length (data_chunks xs ! k) = (if Suc k = length (data_chunks xs) then length xs - k * 100 else 100)"
  by (auto simp add: data_chunks_eq) 

lemma data_chunks_Nil: "data_chunks xs = [] \<longleftrightarrow> xs = []"
proof -
  have "(length xs + 99) div 100 = 0 \<longleftrightarrow> length xs = 0"
    by arith
  then show ?thesis
    by (simp add: data_chunks_eq)
qed

lemma gathered_calls: "gathered (concat (map (\<lambda>c. [Gathered c, Committed]) chunks)) = chunks"
  by (induction chunks) simp_all

lemma rows_of_Loops: "rows_of (map Loop loops) = loops"
  by (induction loops) simp_all

lemma notices_of_Loops: "notices_of v (map Loop loops) = []"
  by (induction loops) simp_all

lemma data_chunks_short:
  "xs \<noteq> [] \<Longrightarrow> length xs \<le> 100 \<Longrightarrow> data_chunks xs = [xs]"
proof -
  assume a: "xs \<noteq> []" and b: "length xs \<le> 100"
  have "(length xs + 99) div 100 = 1"
    using a b by (cases xs) simp_all
  then show ?thesis
    using b by (simp add: data_chunks_eq)
qed

lemma data_chunks_250:
  "length xs = 250 \<Longrightarrow>
   data_chunks xs = [take 100 xs, take 100 (drop 100 xs), drop 200 xs]"
proof -
  assume l: "length xs = 250"
  have "[0..<3] = [0, Suc 0, Suc (Suc 0)]"
    by (simp add: upt_rec)
  then show ?thesis
    using l by (simp add: data_chunks_eq)
qed

lemma outcomes_append: "outcomes n ex (xs @ ys) = outcomes n ex xs @ outcomes n ex ys"
  by (simp add: outcomes_def)

lemma outcomes_Nil: "outcomes n ex [] = []"
  by (simp add: outcomes_def)

lemma outcomes_Cons: "outcomes n ex (p # ps) = tagged n ex p @ outcomes n ex ps"
  by (simp add: outcomes_def)

lemma gather_clean:
  "clean n ex ps \<Longrightarrow>
   (if 1 < n then pool_map n (fault_tolerant_gather ex) ps
    else builtin_map (fault_tolerant_gather ex) ps) = Inr (map (tagged n ex) ps)"
  by (simp add: pool_map_clean builtin_map_clean)

lemma gather_unclean:
  "\<not> clean n ex ps \<Longrightarrow>
   \<exists>a. (if 1 < n then pool_map n (fault_tolerant_gather ex) ps
    else builtin_map (fault_tolerant_gather ex) ps) = Inl a"
  by (simp add: pool_map_unclean builtin_map_unclean)

lemma process_chunk_consumes:
  assumes "clean n ex paths"
  shows "process_chunk ex n v w paths =
      Inr (commit (foldl (loop_body v)
        (w\<lparr>calls := calls w @ [Gathered paths],
           db_stats := (db_stats w)\<lparr>total_pdbs := total_pdbs (db_stats w) + int (length paths)\<rparr>\<rparr>)
        (concat (map (tagged n ex) paths))))"
  by (simp only: process_chunk_def gather_clean [OF assms]) (simp add: Let_def)

lemma process_chunk_clean:
  assumes "clean n ex paths"
  shows "process_chunk ex n v w paths =
     Inr \<lparr>db_stats = \<lparr>total_pdbs = total_pdbs (db_stats w) + int (length paths),
          succeeded = succeeded (db_stats w) + int (length (rows_of (outcomes n ex paths))),
          failed = failed (db_stats w) + int (length (notices_of v (outcomes n ex paths))),
          total_loops = total_loops (db_stats w) + int (length (outcomes n ex paths))\<rparr>,
       session = [],
       database = database w @ [session w @ rows_of (outcomes n ex paths)],
       console = console w @ notices_of v (outcomes n ex paths),
       calls = calls w @ [Gathered paths, Committed]\<rparr>"
  by (simp only: process_chunk_consumes [OF assms] sum.inject outcomes_def [symmetric])
    (intro world.equality stats.equality, simp_all add: foldl_loop_body commit_def)

lemma process_chunk_unclean:
  assumes "\<not> clean n ex paths"
  shows "\<exists>a. process_chunk ex n v w paths = Inl a"
proof -
  from gather_unclean [OF assms] obtain a where
    "(if 1 < n then pool_map n (fault_tolerant_gather ex) paths
      else builtin_map (fault_tolerant_gather ex) paths) = Inl a"
    by blast
  then have "process_chunk ex n v w paths = Inl a"
    by (simp only: process_chunk_def) simp
  then show ?thesis
    by blast
qed

lemma for_chunks_clean:
  "session w = [] \<Longrightarrow> clean n ex (concat chunks) \<Longrightarrow>
   for_chunks ex n v w chunks = Inr (if chunks = [] then w else after_chunks n ex v w chunks)"
proof (induction chunks arbitrary: w)
  case Nil
  show ?case by simp
next
  case (Cons c chunks)
  from Cons.prems have c: "clean n ex c" and cs: "clean n ex (concat chunks)"
    by (simp_all add: clean_append)
  let ?w = "\<lparr>db_stats = \<lparr>total_pdbs = total_pdbs (db_stats w) + int (length c),
          succeeded = succeeded (db_stats w) + int (length (rows_of (outcomes n ex c))),
          failed = failed (db_stats w) + int (length (notices_of v (outcomes n ex c))),
          total_loops = total_loops (db_stats w) + int (length (outcomes n ex c))\<rparr>,
       session = [],
       database = database w @ [session w @ rows_of (outcomes n ex c)],
       console = console w @ notices_of v (outcomes n ex c),
       calls = calls w @ [Gathered c, Committed]\<rparr>"
  have s: "session ?w = []"
    by simp
  have step: "process_chunk ex n v w c = Inr ?w"
    by (rule process_chunk_clean [OF c])
  have "for_chunks ex n v w (c # chunks) = for_chunks ex n v ?w chunks"
    by (simp only: for_chunks.simps step sum.case)
  also have "\<dots> = Inr (if chunks = [] then ?w else after_chunks n ex v ?w chunks)"
    by (rule Cons.IH [OF s cs])
  also have "\<dots> = Inr (after_chunks n ex v w (c # chunks))"
    using Cons.prems(1)
    by (simp add: after_chunks_def outcomes_append outcomes_Nil rows_of_append
        notices_of_append)
  finally show ?case
    by simp
qed

lemma for_chunks_unclean:
  "\<not> clean n ex (concat chunks) \<Longrightarrow> \<exists>a. for_chunks ex n v w chunks = Inl a"
proof (induction chunks arbitrary: w)
  case Nil
  then show ?case by (simp add: clean_Nil)
next
  case (Cons c chunks)
  show ?case
  proof (cases "clean n ex c")
    case True
    with Cons.prems have "\<not> clean n ex (concat chunks)"
      by (simp add: clean_append)
    from Cons.IH [OF this] show ?thesis
      by (simp add: process_chunk_clean [OF True])
  next
    case False
    from process_chunk_unclean [OF this] obtain a where "process_chunk ex n v w c = Inl a"
      by blast
    then show ?thesis
      by simp
  qed
qed

lemma run_clean:
  assumes "clean n ex paths"
  shows "process_pdb_files ex paths out n v = Inr (final_world n ex v paths)"
proof (cases "paths = []")
  case True
  then have "data_chunks paths = []"
    by (simp add: data_chunks_Nil)
  with True show ?thesis
    by (simp add: process_pdb_files_def final_world_def initial_def final_stats_def outcomes_def)
next
  case False
  then have d: "data_chunks paths \<noteq> []"
    by (simp add: data_chunks_Nil)
  have s: "session (initial :: 'a world) = []"
    by (simp add: initial_def)
  have c: "clean n ex (concat (data_chunks paths))"
    using assms by (simp add: concat_data_chunks)
  show ?thesis
    using d
    by (simp add: process_pdb_files_def for_chunks_clean [OF s c])
      (simp add: after_chunks_def concat_data_chunks final_world_def final_stats_def initial_def)
qed

lemma run_unclean:
  assumes "\<not> clean n ex paths"
  shows "\<exists>a. process_pdb_files ex paths out n v = Inl a"
proof -
  have "\<not> clean n ex (concat (data_chunks paths))"
    using assms by (simp add: concat_data_chunks)
  from for_chunks_unclean [OF this] obtain a where
    "for_chunks ex n v initial (data_chunks paths) = Inl a"
    by blast
  then show ?thesis
    by (simp add: process_pdb_files_def)
qed

lemma run_returns:
  "process_pdb_files ex paths out n v = Inr w \<longleftrightarrow> clean n ex paths \<and> w = final_world n ex v paths"
proof (cases "clean n ex paths")
  case True
  then show ?thesis
    by (auto simp add: run_clean)
next
  case False
  from run_unclean [OF this] obtain a where "process_pdb_files ex paths out n v = Inl a"
    by blast
  with False show ?thesis
    by simp
qed

lemma rows_of_chunks:
  "concat (map (\<lambda>c. rows_of (outcomes n ex c)) chunks) = rows_of (outcomes n ex (concat chunks))"
  by (induction chunks) (simp_all add: outcomes_append rows_of_append, simp add: outcomes_def)

lemma notices_of_outcomes:
  "notices_of v (outcomes n ex paths) =
     map (\<lambda>(p, e). failure_notice v p (seen n e)) (failures ex paths)"
proof (induction paths)
  case Nil
  show ?case by (simp add: outcomes_def)
next
  case (Cons p ps)
  show ?case
    by (cases "ex p")
      (simp_all add: outcomes_Cons notices_of_append tagged_def notices_of_Loops Cons.IH)
qed




lemma stats_of_returning_run:
  assumes "process_pdb_files ex paths out n v = Inr w"
  shows "total_pdbs (db_stats w) = int (length paths)
   \<and> succeeded (db_stats w) = int (length (concat (database w)))
   \<and> failed (db_stats w) = int (length (failures ex paths))
   \<and> total_loops (db_stats w) = succeeded (db_stats w) + failed (db_stats w)"
proof -
  from assms have w: "w = final_world n ex v paths"
    by (simp add: run_returns)
  show ?thesis
    using length_rows_notices [of "outcomes n ex paths" v]
    by (simp add: w final_world_def final_stats_def rows_of_chunks concat_data_chunks
        notices_of_outcomes)
qed

lemma collect_append:
  "collect (as @ bs) =
     (case collect as of Inl e \<Rightarrow> Inl e
      | Inr a \<Rightarrow> (case collect bs of Inl e \<Rightarrow> Inl e | Inr b \<Rightarrow> Inr (a @ b)))"
  by (induction as rule: collect.induct) (simp_all split: sum.splits)

lemma outcomes_one_row_each:
  "\<forall>p \<in> set ps. \<exists>r. ex p = Inr [r] \<Longrightarrow>
   clean n ex ps \<and> length (rows_of (outcomes n ex ps)) = length ps
   \<and> notices_of v (outcomes n ex ps) = [] \<and> length (outcomes n ex ps) = length ps"
proof (induction ps)
  case Nil
  show ?case by (simp add: outcomes_def clean_Nil)
next
  case (Cons p ps)
  from Cons.prems obtain r where r: "ex p = Inr [r]"
    by auto
  from Cons.prems have "\<forall>p \<in> set ps. \<exists>r. ex p = Inr [r]"
    by simp
  then show ?case
    using Cons.IH r
    by (simp add: outcomes_Cons tagged_def rows_of_append notices_of_append clean_Cons)
qed



lemma collect_length: "collect rs = Inr xs \<Longrightarrow> length xs = length rs"
  by (induction rs arbitrary: xs rule: collect.induct) (auto split: sum.splits)

lemma gather_with_empty:
  assumes "f p = Inr []"
  shows "builtin_map f (xs @ p # ys) =
           map_sum id (\<lambda>rs. take (length xs) rs @ [] # drop (length xs) rs) (builtin_map f (xs @ ys))"
    and "pool_map n f (xs @ p # ys) =
           map_sum id (\<lambda>rs. take (length xs) rs @ [] # drop (length xs) rs) (pool_map n f (xs @ ys))"
proof -
  have l: "\<And>rs. collect (map f xs) = Inr rs \<Longrightarrow> length rs = length xs"
    using collect_length [of "map f xs"] by simp
  show "builtin_map f (xs @ p # ys) =
           map_sum id (\<lambda>rs. take (length xs) rs @ [] # drop (length xs) rs) (builtin_map f (xs @ ys))"
    using assms by (auto simp add: builtin_map_def collect_append dest: l split: sum.splits)
  show "pool_map n f (xs @ p # ys) =
           map_sum id (\<lambda>rs. take (length xs) rs @ [] # drop (length xs) rs) (pool_map n f (xs @ ys))"
    using assms
    by (auto simp add: pool_map_def collect_append take_map drop_map dest: l split: sum.splits)
qed

lemma concat_with_empty: "concat (take k rs @ [] # drop k rs) = concat rs"
proof -
  have "concat (take k rs @ [] # drop k rs) = concat (take k rs) @ concat (drop k rs)"
    by simp
  also have "\<dots> = concat (take k rs @ drop k rs)"
    by (simp only: concat_append)
  also have "\<dots> = concat rs"
    by (simp only: append_take_drop_id)
  finally show ?thesis .
qed

lemma clean_with_empty: "ex p = Inr [] \<Longrightarrow> clean n ex (xs @ p # ys) = clean n ex (xs @ ys)"
  by (simp add: clean_append clean_Cons)

lemma outcomes_with_empty:
  "ex p = Inr [] \<Longrightarrow> outcomes n ex (xs @ p # ys) = outcomes n ex (xs @ ys)"
  by (simp add: outcomes_append outcomes_Cons tagged_def)

subsection \<open>Properties of the run\<close>

text \<open>
  C1. At the end of a run \<^verbatim>\<open>succeeded + failed\<close> should equal \<^verbatim>\<open>total_pdbs\<close>, the
  number of paths submitted, as the summary line reads (``Finished processing N PDB files:
  S succeeded, F failed''). The code adds one to \<^verbatim>\<open>succeeded\<close> for every loop row it adds
  to the session, not for every file: one file that yields two loops ends with
  \<^verbatim>\<open>total_pdbs = 1\<close> and \<^verbatim>\<open>succeeded = 2\<close>.
\<close>

theorem succeeded_counts_rows_not_files:
  "process_pdb_files (\<lambda>p. Inr [''GSG'', ''PNG'']) [''1abc.pdb''] ''loops.db'' 1 True
     = Inr \<lparr>db_stats = \<lparr>total_pdbs = 1, succeeded = 2, failed = 0, total_loops = 2\<rparr>,
            session = [], database = [[''GSG'', ''PNG'']],
            console = [''Finished processing 1 PDB files:\<newline>2 succeeded, 0 failed, 2 added to database.''],
            calls = [Gathered [''1abc.pdb''], Committed]\<rparr>
   \<and> map_sum id (\<lambda>w. succeeded (db_stats w) + failed (db_stats w) = total_pdbs (db_stats w))
        (process_pdb_files (\<lambda>p. Inr [''GSG'', ''PNG'']) [''1abc.pdb''] ''loops.db'' 1 True)
     = Inr False"
proof -
  have "clean 1 (\<lambda>p. Inr [''GSG'', ''PNG''] :: exn + string list) [''1abc.pdb'']"
    by (simp add: clean_def)
  then show ?thesis
    by (simp add: run_clean final_world_def final_stats_def outcomes_def tagged_def
        data_chunks_short summary_def show_int_def show_nat.simps)
qed

text \<open>
  C2. \<^verbatim>\<open>total_loops\<close> should be the number of loops produced by the files that succeeded,
  which the summary line reports as ``added to database''. The code increments it before
  it tests for a failure tuple, so a file that raises counts as one loop: a run over one
  failing file writes no row and reports \<^verbatim>\<open>total_loops = 1\<close>.
\<close>

theorem total_loops_counts_failed_file:
  "process_pdb_files (\<lambda>p. Inl (Exn True ''no backbone'' Intact) :: exn + string list)
       [''2xyz.pdb''] ''loops.db'' 1 False
     = Inr \<lparr>db_stats = \<lparr>total_pdbs = 1, succeeded = 0, failed = 1, total_loops = 1\<rparr>,
            session = [], database = [[]],
            console = [''Failed to process 2xyz.pdb'',
              ''Finished processing 1 PDB files:\<newline>0 succeeded, 1 failed, 1 added to database.''],
            calls = [Gathered [''2xyz.pdb''], Committed]\<rparr>"
proof -
  have "clean 1 (\<lambda>p. Inl (Exn True ''no backbone'' Intact) :: exn + string list) [''2xyz.pdb'']"
    by (simp add: clean_def survives_def)
  then show ?thesis
    by (simp add: run_clean final_world_def final_stats_def outcomes_def tagged_def seen_def
        data_chunks_short failure_notice_def summary_def show_int_def show_nat.simps)
qed

text \<open>
  C3, as stated: whatever the extractor raises, \<^verbatim>\<open>fault_tolerant_gather\<close> returns a
  tagged failure and nothing reaches the caller. The handler is \<^verbatim>\<open>except Exception\<close>,
  so this fails for \<^verbatim>\<open>SystemExit\<close>, which is not an instance of \<^verbatim>\<open>Exception\<close>: it
  propagates.
\<close>

theorem uncaught_exception_propagates:
  "fault_tolerant_gather (\<lambda>p. Inl (Exn False ''SystemExit: 1'' Intact) :: exn + string list)
     ''1abc.pdb'' = Inl (Exn False ''SystemExit: 1'' Intact)"
  by (simp add: fault_tolerant_gather_def)

text \<open>
  C3, amended. \<^verbatim>\<open>fault_tolerant_gather\<close> calls the extractor on the path it is given.
  When the extractor returns, the result is the extractor's list of loops, unchanged and
  possibly empty, with no failure in it. When the extractor raises an instance of
  \<^verbatim>\<open>Exception\<close>, the result is the one-element list holding the pair of that path and
  that exception, and nothing is raised to the caller. When it raises anything else, that
  object propagates to the caller.
\<close>

theorem fault_tolerant_gather_outcome:
  "(gather path = Inr loops \<longrightarrow>
      fault_tolerant_gather gather path = Inr (map Loop loops)
      \<and> rows_of (map Loop loops) = loops
      \<and> notices_of verbose (map Loop loops) = [])
   \<and> (gather path = Inl e \<and> is_Exception e \<longrightarrow>
        fault_tolerant_gather gather path = Inr [Failure path e])
   \<and> (gather path = Inl e \<and> \<not> is_Exception e \<longrightarrow>
        fault_tolerant_gather gather path = Inl e)"
  by (simp add: fault_tolerant_gather_def rows_of_Loops notices_of_Loops)

theorem fault_tolerant_gather_outcome_witness:
  "fault_tolerant_gather
     (\<lambda>p. if p = ''bad.pdb'' then Inl (Exn True ''no backbone'' Intact)
           else if p = ''stop.pdb'' then Inl (Exn False ''KeyboardInterrupt'' Intact)
           else Inr [''GSG'', ''PNG''])
     ''1abc.pdb'' = Inr [Loop ''GSG'', Loop ''PNG'']
   \<and> fault_tolerant_gather
     (\<lambda>p. if p = ''bad.pdb'' then Inl (Exn True ''no backbone'' Intact)
           else if p = ''stop.pdb'' then Inl (Exn False ''KeyboardInterrupt'' Intact)
           else Inr [''GSG'', ''PNG''])
     ''bad.pdb'' = Inr [Failure ''bad.pdb'' (Exn True ''no backbone'' Intact)]
   \<and> fault_tolerant_gather
     (\<lambda>p. if p = ''bad.pdb'' then Inl (Exn True ''no backbone'' Intact)
           else if p = ''stop.pdb'' then Inl (Exn False ''KeyboardInterrupt'' Intact)
           else Inr [''GSG'', ''PNG''])
     ''stop.pdb'' = Inl (Exn False ''KeyboardInterrupt'' Intact)"
  using
    fault_tolerant_gather_outcome [of
      "\<lambda>p. if p = ''bad.pdb'' then Inl (Exn True ''no backbone'' Intact)
           else if p = ''stop.pdb'' then Inl (Exn False ''KeyboardInterrupt'' Intact)
           else Inr [''GSG'', ''PNG'']"
      "''1abc.pdb''" "[''GSG'', ''PNG'']" True "Exn True ''no backbone'' Intact"]
    fault_tolerant_gather_outcome [of
      "\<lambda>p. if p = ''bad.pdb'' then Inl (Exn True ''no backbone'' Intact)
           else if p = ''stop.pdb'' then Inl (Exn False ''KeyboardInterrupt'' Intact)
           else Inr [''GSG'', ''PNG'']"
      "''bad.pdb''" "[]" True "Exn True ''no backbone'' Intact"]
    fault_tolerant_gather_outcome [of
      "\<lambda>p. if p = ''bad.pdb'' then Inl (Exn True ''no backbone'' Intact)
           else if p = ''stop.pdb'' then Inl (Exn False ''KeyboardInterrupt'' Intact)
           else Inr [''GSG'', ''PNG'']"
      "''stop.pdb''" "[]" True "Exn False ''KeyboardInterrupt'' Intact"]
  by simp

text \<open>
  C4. With N files of which K raise, the run should end with \<^verbatim>\<open>failed = K\<close> and
  \<^verbatim>\<open>succeeded = N - K\<close>. The run below has N = 2 and K = 1; it ends, and it reports
  one failed file, but \<^verbatim>\<open>succeeded = 3\<close>, the number of loops of the file that was read.
\<close>

theorem one_of_two_fails_three_succeeded:
  "process_pdb_files
       (\<lambda>p. if p = ''2xyz.pdb'' then Inl (Exn True ''no backbone'' Intact)
             else Inr [''GSG'', ''PNG'', ''DGT''])
       [''1abc.pdb'', ''2xyz.pdb''] ''loops.db'' 4 True
     = Inr \<lparr>db_stats = \<lparr>total_pdbs = 2, succeeded = 3, failed = 1, total_loops = 4\<rparr>,
            session = [], database = [[''GSG'', ''PNG'', ''DGT'']],
            console = [''Failed to process 2xyz.pdb:\<newline> no backbone\<newline>'',
              ''Finished processing 2 PDB files:\<newline>3 succeeded, 1 failed, 4 added to database.''],
            calls = [Gathered [''1abc.pdb'', ''2xyz.pdb''], Committed]\<rparr>"
proof -
  have "clean 4 (\<lambda>p. if p = ''2xyz.pdb'' then Inl (Exn True ''no backbone'' Intact)
             else (Inr [''GSG'', ''PNG'', ''DGT''] :: exn + string list))
          [''1abc.pdb'', ''2xyz.pdb'']"
    by (simp add: clean_def survives_def)
  then show ?thesis
    by (simp add: run_clean final_world_def final_stats_def outcomes_def tagged_def seen_def
        across_def data_chunks_short failure_notice_def summary_def show_int_def
        show_nat.simps)
qed

text \<open>
  C5. The list comprehension that builds \<^verbatim>\<open>data_chunks\<close> cuts the input list into
  consecutive chunks of 100 paths: chunk \<open>k\<close> is the input from position \<open>100 * k\<close>
  on, at most 100 long; every chunk but the last has exactly 100 paths and the last has
  between 1 and 100. Position \<open>i\<close> of the input lies in chunk \<open>i div 100\<close> at index
  \<open>i mod 100\<close> and nowhere else, and the chunks concatenated in order are the input list.
\<close>

theorem data_chunks_partition:
  "concat (data_chunks xs) = xs
   \<and> length (data_chunks xs) = (length xs + 99) div 100
   \<and> (\<forall>k < length (data_chunks xs).
         data_chunks xs ! k = take 100 (drop (k * 100) xs)
         \<and> length (data_chunks xs ! k) =
             (if Suc k = length (data_chunks xs) then length xs - k * 100 else 100)
         \<and> 0 < length (data_chunks xs ! k) \<and> length (data_chunks xs ! k) \<le> 100)
   \<and> (\<forall>i < length xs.
         i div 100 < length (data_chunks xs)
         \<and> i mod 100 < length (data_chunks xs ! (i div 100))
         \<and> data_chunks xs ! (i div 100) ! (i mod 100) = xs ! i)"
proof -
  have a: "\<forall>k < length (data_chunks xs).
         data_chunks xs ! k = take 100 (drop (k * 100) xs)
         \<and> length (data_chunks xs ! k) =
             (if Suc k = length (data_chunks xs) then length xs - k * 100 else 100)
         \<and> 0 < length (data_chunks xs ! k) \<and> length (data_chunks xs ! k) \<le> 100"
  proof (intro allI impI)
    fix k
    assume k: "k < length (data_chunks xs)"
    then have lt: "k * 100 < length xs"
      by (simp add: length_data_chunks)
    have n: "data_chunks xs ! k = take 100 (drop (k * 100) xs)"
      using k by (rule nth_data_chunks)
    have l: "length (data_chunks xs ! k) =
             (if Suc k = length (data_chunks xs) then length xs - k * 100 else 100)"
      using k by (rule length_nth_data_chunks)
    have p: "0 < length (data_chunks xs ! k) \<and> length (data_chunks xs ! k) \<le> 100"
      using lt by (simp add: n)
    show "data_chunks xs ! k = take 100 (drop (k * 100) xs)
         \<and> length (data_chunks xs ! k) =
             (if Suc k = length (data_chunks xs) then length xs - k * 100 else 100)
         \<and> 0 < length (data_chunks xs ! k) \<and> length (data_chunks xs ! k) \<le> 100"
      using n l p by blast
  qed
  have b: "\<forall>i < length xs.
         i div 100 < length (data_chunks xs)
         \<and> i mod 100 < length (data_chunks xs ! (i div 100))
         \<and> data_chunks xs ! (i div 100) ! (i mod 100) = xs ! i"
  proof (intro allI impI)
    fix i
    assume i: "i < length xs"
    then have k: "i div 100 < length (data_chunks xs)"
      by (simp add: length_data_chunks)
    have e: "i div 100 * 100 + i mod 100 = i"
      by simp
    have m: "i mod 100 < length xs - i div 100 * 100"
      using i by (simp add: less_diff_conv)
    show "i div 100 < length (data_chunks xs)
         \<and> i mod 100 < length (data_chunks xs ! (i div 100))
         \<and> data_chunks xs ! (i div 100) ! (i mod 100) = xs ! i"
      using k m by (simp add: nth_data_chunks e)
  qed
  show ?thesis
    by (intro conjI concat_data_chunks length_data_chunks a b)
qed

theorem data_chunks_partition_witness:
  "(2::nat) < length (data_chunks (replicate 250 ''1abc.pdb''))
   \<and> data_chunks (replicate 250 ''1abc.pdb'') ! 2 = replicate 50 ''1abc.pdb''
   \<and> length (data_chunks (replicate 250 ''1abc.pdb'') ! 2) = 50
   \<and> (205::nat) < length (replicate 250 ''1abc.pdb'')
   \<and> (205::nat) div 100 < length (data_chunks (replicate 250 ''1abc.pdb''))
   \<and> concat (data_chunks (replicate 250 ''1abc.pdb'')) = replicate 250 ''1abc.pdb''"
proof -
  let ?X = "replicate 250 ''1abc.pdb''"
  have l: "length (data_chunks ?X) = 3"
    by (simp add: length_data_chunks)
  have k: "(2::nat) < length (data_chunks ?X)"
    by (simp add: l)
  have i: "(205::nat) < length ?X"
    by simp
  from data_chunks_partition [of ?X] k
  have c: "data_chunks ?X ! 2 = take 100 (drop (2 * 100) ?X)"
    by blast
  from data_chunks_partition [of ?X] i
  have d: "(205::nat) div 100 < length (data_chunks ?X)"
    by blast
  from data_chunks_partition [of ?X]
  have e: "concat (data_chunks ?X) = ?X"
    by blast
  show ?thesis
    using k i d e by (simp add: c)
qed




text \<open>
  C7. For 250 paths that each yield exactly one loop, the run returns; it handles three
  chunks, of 100, 100 and 50 paths, commits once after each chunk and before the next one
  is gathered, writes 100, 100 and 50 rows, and ends with \<^verbatim>\<open>total_pdbs = 250\<close>,
  \<^verbatim>\<open>succeeded = 250\<close>, \<^verbatim>\<open>failed = 0\<close> and \<^verbatim>\<open>total_loops = 250\<close>.
\<close>

theorem scenario_250_files:
  assumes "length paths = 250"
    and "\<forall>p \<in> set paths. \<exists>r. ex p = Inr [r]"
  shows "\<exists>w. process_pdb_files ex paths out n v = Inr w
   \<and> map length (data_chunks paths) = [100, 100, 50]
   \<and> calls w =
       [Gathered (take 100 paths), Committed,
        Gathered (take 100 (drop 100 paths)), Committed,
        Gathered (drop 200 paths), Committed]
   \<and> map length (database w) = [100, 100, 50]
   \<and> db_stats w = \<lparr>total_pdbs = 250, succeeded = 250, failed = 0, total_loops = 250\<rparr>"
proof -
  have c: "data_chunks paths = [take 100 paths, take 100 (drop 100 paths), drop 200 paths]"
    using assms(1) by (rule data_chunks_250)
  have s: "\<And>c. set c \<subseteq> set paths \<Longrightarrow> length (rows_of (outcomes n ex c)) = length c"
    using assms(2) outcomes_one_row_each [of _ ex n] by blast
  have t1: "set (take 100 paths) \<subseteq> set paths"
    by (rule set_take_subset)
  have t2: "set (take 100 (drop 100 paths)) \<subseteq> set paths"
    using set_take_subset set_drop_subset by fast
  have t3: "set (drop 200 paths) \<subseteq> set paths"
    by (rule set_drop_subset)
  have r: "process_pdb_files ex paths out n v = Inr (final_world n ex v paths)"
    using outcomes_one_row_each [OF assms(2), of n v] by (simp add: run_clean)
  have a: "map length (data_chunks paths) = [100, 100, 50]"
    using assms(1) by (simp add: c)
  have b: "calls (final_world n ex v paths) =
       [Gathered (take 100 paths), Committed,
        Gathered (take 100 (drop 100 paths)), Committed,
        Gathered (drop 200 paths), Committed]"
    by (simp add: final_world_def c)
  have d: "map length (database (final_world n ex v paths)) = [100, 100, 50]"
    using assms(1) by (simp add: final_world_def c s [OF t1] s [OF t2] s [OF t3])
  have e: "db_stats (final_world n ex v paths) =
       \<lparr>total_pdbs = 250, succeeded = 250, failed = 0, total_loops = 250\<rparr>"
    using outcomes_one_row_each [OF assms(2), of n v] assms(1)
    by (simp add: final_world_def final_stats_def)
  show ?thesis
    by (rule exI [of _ "final_world n ex v paths"], intro conjI r a b d e)
qed

theorem scenario_250_files_witness:
  "length (replicate 250 ''1abc.pdb'') = 250
   \<and> set (replicate 250 ''1abc.pdb'') = {''1abc.pdb''}
   \<and> (\<lambda>p. Inr [p @ '':GSG'']) ''1abc.pdb'' = (Inr [''1abc.pdb:GSG''] :: exn + string list)
   \<and> (\<exists>w. process_pdb_files (\<lambda>p. Inr [p @ '':GSG'']) (replicate 250 ''1abc.pdb'') ''loops.db'' 1 True = Inr w
     \<and> calls w =
       [Gathered (replicate 100 ''1abc.pdb''), Committed,
        Gathered (replicate 100 ''1abc.pdb''), Committed,
        Gathered (replicate 50 ''1abc.pdb''), Committed]
     \<and> db_stats w = \<lparr>total_pdbs = 250, succeeded = 250, failed = 0, total_loops = 250\<rparr>)"
proof -
  have l: "length (replicate 250 ''1abc.pdb'') = 250"
    by simp
  have h: "\<forall>p \<in> set (replicate 250 ''1abc.pdb''). \<exists>r. (\<lambda>p. Inr [p @ '':GSG'']) p = (Inr [r] :: exn + string list)"
    by simp
  from scenario_250_files [OF l h, of "''loops.db''" 1 True] obtain w where
    "process_pdb_files (\<lambda>p. Inr [p @ '':GSG'']) (replicate 250 ''1abc.pdb'') ''loops.db'' 1 True = Inr w"
    "calls w =
       [Gathered (take 100 (replicate 250 ''1abc.pdb'')), Committed,
        Gathered (take 100 (drop 100 (replicate 250 ''1abc.pdb''))), Committed,
        Gathered (drop 200 (replicate 250 ''1abc.pdb'')), Committed]"
    "db_stats w = \<lparr>total_pdbs = 250, succeeded = 250, failed = 0, total_loops = 250\<rparr>"
    by blast
  then have "\<exists>w. process_pdb_files (\<lambda>p. Inr [p @ '':GSG'']) (replicate 250 ''1abc.pdb'') ''loops.db'' 1 True = Inr w
     \<and> calls w =
       [Gathered (replicate 100 ''1abc.pdb''), Committed,
        Gathered (replicate 100 ''1abc.pdb''), Committed,
        Gathered (replicate 50 ''1abc.pdb''), Committed]
     \<and> db_stats w = \<lparr>total_pdbs = 250, succeeded = 250, failed = 0, total_loops = 250\<rparr>"
    by simp
  then show ?thesis
    by simp
qed




text \<open>
  C9. A file on which the extractor returns the empty list gives the loop body nothing to
  iterate over. A chunk with such a file ends as the same chunk without it does: in the
  same way when it does not return, and otherwise in the same state except that
  \<^verbatim>\<open>total_pdbs\<close> is one higher and the chunk gathered has one more path;
  \<^verbatim>\<open>succeeded\<close>, \<^verbatim>\<open>failed\<close>, \<^verbatim>\<open>total_loops\<close>, the session, the committed rows
  and the console are the same. A whole run with such a file returns exactly when the run
  without it returns, with the same statistics but \<^verbatim>\<open>total_pdbs\<close> one higher, and the
  same rows.
\<close>

theorem empty_result_changes_only_total_pdbs:
  assumes "gather p = Inr []"
  shows "fault_tolerant_gather gather p = Inr []
   \<and> process_chunk gather n v w (xs @ p # ys) =
       map_sum id
         (\<lambda>w'. w'\<lparr>db_stats := (db_stats w')\<lparr>total_pdbs := total_pdbs (db_stats w') + 1\<rparr>,
                  calls := calls w @ [Gathered (xs @ p # ys), Committed]\<rparr>)
         (process_chunk gather n v w (xs @ ys))
   \<and> map_sum (\<lambda>a. ()) db_stats (process_pdb_files gather (xs @ p # ys) out n v) =
       map_sum (\<lambda>a. ())
         (\<lambda>w'. (db_stats w')\<lparr>total_pdbs := total_pdbs (db_stats w') + 1\<rparr>)
         (process_pdb_files gather (xs @ ys) out n v)
   \<and> map_sum (\<lambda>a. ()) (\<lambda>w'. concat (database w'))
         (process_pdb_files gather (xs @ p # ys) out n v)
       = map_sum (\<lambda>a. ()) (\<lambda>w'. concat (database w'))
         (process_pdb_files gather (xs @ ys) out n v)"
proof -
  have a: "fault_tolerant_gather gather p = Inr []"
    using assms by (simp add: fault_tolerant_gather_def)
  have o: "\<And>m. outcomes m gather (xs @ p # ys) = outcomes m gather (xs @ ys)"
    using assms by (rule outcomes_with_empty)
  have k: "clean n gather (xs @ p # ys) = clean n gather (xs @ ys)"
    using assms by (rule clean_with_empty)
  have b: "process_chunk gather n v w (xs @ p # ys) =
       map_sum id
         (\<lambda>w'. w'\<lparr>db_stats := (db_stats w')\<lparr>total_pdbs := total_pdbs (db_stats w') + 1\<rparr>,
                  calls := calls w @ [Gathered (xs @ p # ys), Committed]\<rparr>)
         (process_chunk gather n v w (xs @ ys))"
  proof -
    let ?F = "fault_tolerant_gather gather"
    let ?G = "\<lambda>zs. if 1 < n then pool_map n ?F zs else builtin_map ?F zs"
    have g: "?G (xs @ p # ys) =
        map_sum id (\<lambda>rs. take (length xs) rs @ [] # drop (length xs) rs) (?G (xs @ ys))"
      using gather_with_empty(1) [where f = ?F and p = p and xs = xs and ys = ys, OF a]
        gather_with_empty(2) [where f = ?F and p = p and xs = xs and ys = ys and n = n, OF a]
      by simp
    show ?thesis
    proof (cases "?G (xs @ ys)")
      case (Inl e)
      then show ?thesis
        by (simp only: process_chunk_def g map_sum.simps sum.case id_apply)
    next
      case (Inr rs)
      then show ?thesis
        by (simp only: process_chunk_def g map_sum.simps sum.case id_apply concat_with_empty)
          (simp add: Let_def foldl_loop_body commit_def)
    qed
  qed
  have cd: "map_sum (\<lambda>a. ()) db_stats (process_pdb_files gather (xs @ p # ys) out n v) =
       map_sum (\<lambda>a. ())
         (\<lambda>w'. (db_stats w')\<lparr>total_pdbs := total_pdbs (db_stats w') + 1\<rparr>)
         (process_pdb_files gather (xs @ ys) out n v)
     \<and> map_sum (\<lambda>a. ()) (\<lambda>w'. concat (database w'))
         (process_pdb_files gather (xs @ p # ys) out n v)
       = map_sum (\<lambda>a. ()) (\<lambda>w'. concat (database w'))
         (process_pdb_files gather (xs @ ys) out n v)"
  proof (cases "clean n gather (xs @ ys)")
    case True
    with k have "clean n gather (xs @ p # ys)"
      by blast
    then show ?thesis
      using True
      by (simp add: run_clean final_world_def final_stats_def o rows_of_chunks
          concat_data_chunks del: append.simps)
  next
    case False
    with k have "\<not> clean n gather (xs @ p # ys)"
      by blast
    from run_unclean [OF this] run_unclean [OF False]
    obtain a1 a2 where "process_pdb_files gather (xs @ p # ys) out n v = Inl a1"
      "process_pdb_files gather (xs @ ys) out n v = Inl a2"
      by blast
    then show ?thesis
      by simp
  qed
  show ?thesis
    using a b cd by blast
qed

theorem empty_result_changes_only_total_pdbs_witness:
  "(\<lambda>p. if p = ''empty.pdb'' then Inr [] else Inr [p @ '':GSG'']) ''empty.pdb'' = (Inr [] :: exn + string list)
   \<and> map_sum (\<lambda>a. ()) db_stats
        (process_pdb_files (\<lambda>p. if p = ''empty.pdb'' then Inr [] else Inr [p @ '':GSG''])
        ([''1abc.pdb''] @ ''empty.pdb'' # [''2xyz.pdb'']) ''loops.db'' 1 True)
      = Inr \<lparr>total_pdbs = 3, succeeded = 2, failed = 0, total_loops = 2\<rparr>"
proof -
  let ?g = "\<lambda>p. if p = ''empty.pdb'' then Inr [] else (Inr [p @ '':GSG''] :: exn + string list)"
  have h: "?g ''empty.pdb'' = Inr []"
    by simp
  have c: "clean 1 ?g [''1abc.pdb'', ''2xyz.pdb'']"
    by (simp add: clean_def)
  have s: "map_sum (\<lambda>a. ()) db_stats
        (process_pdb_files ?g ([''1abc.pdb''] @ [''2xyz.pdb'']) ''loops.db'' 1 True)
      = Inr \<lparr>total_pdbs = 2, succeeded = 2, failed = 0, total_loops = 2\<rparr>"
    by (simp add: run_clean [OF c] final_world_def final_stats_def outcomes_def tagged_def)
  from h empty_result_changes_only_total_pdbs [where gather = ?g and p = "''empty.pdb''"
      and xs = "[''1abc.pdb'']" and ys = "[''2xyz.pdb'']" and out = "''loops.db''" and n = 1
      and v = True]
  have "map_sum (\<lambda>a. ()) db_stats
          (process_pdb_files ?g ([''1abc.pdb''] @ ''empty.pdb'' # [''2xyz.pdb'']) ''loops.db'' 1 True) =
       map_sum (\<lambda>a. ())
         (\<lambda>w'. (db_stats w')\<lparr>total_pdbs := total_pdbs (db_stats w') + 1\<rparr>)
         (process_pdb_files ?g ([''1abc.pdb''] @ [''2xyz.pdb'']) ''loops.db'' 1 True)"
    by blast
  also have "\<dots> = map_sum id (\<lambda>st. st\<lparr>total_pdbs := total_pdbs st + 1\<rparr>)
      (map_sum (\<lambda>a. ()) db_stats
        (process_pdb_files ?g ([''1abc.pdb''] @ [''2xyz.pdb'']) ''loops.db'' 1 True))"
    by (simp add: sum.map_comp comp_def)
  also have "\<dots> = Inr \<lparr>total_pdbs = 3, succeeded = 2, failed = 0, total_loops = 2\<rparr>"
    by (simp only: s) simp
  finally show ?thesis
    using h by blast
qed

text \<open>
  C10. The chunks are cut every 100 paths from the input list alone: every chunk but the
  last has exactly 100 paths, and \<^verbatim>\<open>process_pdb_files\<close> loops over these chunks whatever
  \<^verbatim>\<open>output_path\<close>, \<^verbatim>\<open>processes\<close> and \<^verbatim>\<open>verbose\<close> are. In a run that returns, the
  chunks handed to the workers are exactly these.
\<close>

theorem chunk_size_is_100:
  "data_chunks paths = map (\<lambda>i. take 100 (drop i paths)) (range_step (length paths) 100)
   \<and> (\<forall>k. Suc k < length (data_chunks paths) \<longrightarrow> length (data_chunks paths ! k) = 100)
   \<and> process_pdb_files gather paths out n v =
       map_sum id (\<lambda>w. w\<lparr>console := console w @ [summary (db_stats w)]\<rparr>)
         (for_chunks gather n v initial (data_chunks paths))
   \<and> (process_pdb_files gather paths out n v = Inr w \<longrightarrow>
        gathered (calls w) = data_chunks paths
        \<and> (\<forall>k. Suc k < length (gathered (calls w)) \<longrightarrow> length (gathered (calls w) ! k) = 100))"
proof -
  have b: "data_chunks paths = map (\<lambda>i. take 100 (drop i paths)) (range_step (length paths) 100)"
    by (simp add: data_chunks_def slice_def)
  have c: "\<forall>k. Suc k < length (data_chunks paths) \<longrightarrow> length (data_chunks paths ! k) = 100"
  proof (intro allI impI)
    fix k
    assume k: "Suc k < length (data_chunks paths)"
    then have "k < length (data_chunks paths)"
      by simp
    then have "length (data_chunks paths ! k) =
        (if Suc k = length (data_chunks paths) then length paths - k * 100 else 100)"
      by (rule length_nth_data_chunks)
    then show "length (data_chunks paths ! k) = 100"
      using k by simp
  qed
  have d: "process_pdb_files gather paths out n v =
       map_sum id (\<lambda>w. w\<lparr>console := console w @ [summary (db_stats w)]\<rparr>)
         (for_chunks gather n v initial (data_chunks paths))"
    by (cases "for_chunks gather n v initial (data_chunks paths)")
      (simp_all add: process_pdb_files_def)
  have e: "process_pdb_files gather paths out n v = Inr w \<longrightarrow>
        gathered (calls w) = data_chunks paths
        \<and> (\<forall>k. Suc k < length (gathered (calls w)) \<longrightarrow> length (gathered (calls w) ! k) = 100)"
  proof
    assume "process_pdb_files gather paths out n v = Inr w"
    then have "w = final_world n gather v paths"
      by (simp add: run_returns)
    then have a: "gathered (calls w) = data_chunks paths"
      by (simp add: final_world_def gathered_calls)
    show "gathered (calls w) = data_chunks paths
        \<and> (\<forall>k. Suc k < length (gathered (calls w)) \<longrightarrow> length (gathered (calls w) ! k) = 100)"
      using c by (simp only: a)
  qed
  show ?thesis
    by (intro conjI b c d e)
qed

theorem chunk_size_is_100_witness:
  "(\<exists>w. process_pdb_files
       (\<lambda>p. Inl (Exn True ''unreadable'' Intact) :: exn + string list) (replicate 201 ''1abc.pdb'') ''out.db'' 8 False = Inr w
     \<and> Suc 1 < length (gathered (calls w))
     \<and> length (gathered (calls w) ! 1) = 100)
   \<and> Suc 1 < length (data_chunks (replicate 201 ''1abc.pdb''))
   \<and> length (data_chunks (replicate 201 ''1abc.pdb'') ! 1) = 100"
proof -
  let ?g = "\<lambda>p. Inl (Exn True ''unreadable'' Intact) :: exn + string list"
  let ?ps = "replicate 201 ''1abc.pdb''"
  note t = chunk_size_is_100 [of ?ps ?g "''out.db''" 8 False]
  have "clean 8 ?g ?ps"
    by (simp add: clean_def survives_def list_all_iff)
  then obtain w where r: "process_pdb_files ?g ?ps ''out.db'' 8 False = Inr w"
    by (simp add: run_clean)
  from t [of w] r have g: "gathered (calls w) = data_chunks ?ps"
    and a: "\<forall>k. Suc k < length (gathered (calls w)) \<longrightarrow> length (gathered (calls w) ! k) = 100"
    by blast+
  have l: "Suc 1 < length (gathered (calls w))"
    by (simp add: g length_data_chunks)
  with a have m: "length (gathered (calls w) ! 1) = 100"
    by blast
  have l': "Suc 1 < length (data_chunks ?ps)"
    by (simp add: length_data_chunks)
  with t [of w] have "length (data_chunks ?ps ! 1) = 100"
    by blast
  with r l m l' show ?thesis
    by blast
qed

end
